theory Spec2Isabelle
  imports Complex_Main "HOL-Library.Word"
begin

section \<open>Data model\<close>

subsection \<open>Machine integers and double-precision values\<close>

text \<open>
  The native routines take their counts as \<^verbatim>\<open>size_t\<close>, an unsigned 64-bit integer on
  the platforms the notebook builds for; arithmetic on it wraps around.
\<close>

type_synonym size_t = "64 word"

text \<open>
  A \<^verbatim>\<open>double\<close> is an IEEE-754 binary64 value: a sign bit, an 11-bit biased exponent and a
  52-bit fraction.
\<close>

datatype double = Double (sign: bool) (biased_exp: nat) (fraction: nat)

text \<open>
  The value of a double as a rational number; infinities and NaNs (biased exponent 2047)
  have none. A biased exponent of 0 is a subnormal number.
\<close>

definition valof :: "double \<Rightarrow> rat option" where
  "valof d =
     (if biased_exp d \<ge> 2047 then None
      else
        let m = (if biased_exp d = 0 then fraction d else 2 ^ 52 + fraction d);
            e = (if biased_exp d = 0 then 1 else biased_exp d);
            a = (if e \<ge> 1075 then of_nat (m * 2 ^ (e - 1075))
                 else of_nat m / of_nat (2 ^ (1075 - e)))
        in Some (if sign d then - a else a))"

text \<open>The number of binary digits of a natural number.\<close>

fun bit_length :: "nat \<Rightarrow> nat" where
  "bit_length n = (if n = 0 then 0 else Suc (bit_length (n div 2)))"

declare bit_length.simps [simp del]

text \<open>
  The cast \<^verbatim>\<open>(double)i\<close> of an unsigned integer: the nearest binary64 value, ties to the
  even significand (the default rounding mode). With \<open>l + 1\<close> binary digits in \<open>n\<close>, the
  significand keeps the top 53 of them.
\<close>

definition double_of_nat :: "nat \<Rightarrow> double" where
  "double_of_nat n =
     (if n = 0 then Double False 0 0
      else
        let l = bit_length n - 1 in
        if l \<le> 52 then Double False (1023 + l) (n * 2 ^ (52 - l) - 2 ^ 52)
        else
          let sh = l - 52;
              q = n div 2 ^ sh;
              r = n mod 2 ^ sh;
              half = 2 ^ (sh - 1);
              m = (if r > half \<or> (r = half \<and> odd q) then q + 1 else q)
          in if m = 2 ^ 53 then Double False (1023 + l + 1) 0
             else Double False (1023 + l) (m - 2 ^ 52))"

definition double_of_size_t :: "size_t \<Rightarrow> double" where
  "double_of_size_t i = double_of_nat (unat i)"

subsection \<open>The buffer behind a pointer\<close>

text \<open>
  The region a \<^verbatim>\<open>double *\<close> points to is the list of its slots. The memory also records
  the offsets that have been stored to, in order, so that statements about which slots a
  routine touches can be made. A store outside the region is undefined behaviour in C:
  it is the result \<open>None\<close>.
\<close>

record memory =
  cells :: "double list"
  writes :: "nat list"

definition store :: "memory \<Rightarrow> nat \<Rightarrow> double \<Rightarrow> memory option" where
  "store m k v =
     (if k < length (cells m)
      then Some (m\<lparr>cells := (cells m)[k := v], writes := writes m @ [k]\<rparr>)
      else None)"

section \<open>The native fill routines\<close>

text \<open>
  \<^verbatim>\<open>
  void fill_array(double *arr, size_t size) {
      for (size_t i = 0; i < size; ++i) {
          arr[i] = (double)i;
      }
  }
  \<close>
\<close>

function fill_array_loop :: "memory \<Rightarrow> size_t \<Rightarrow> size_t \<Rightarrow> memory option" where
  "fill_array_loop m n i =
     (if i < n
      then (case store m (unat i) (double_of_size_t i) of
              None \<Rightarrow> None
            | Some m' \<Rightarrow> fill_array_loop m' n (i + 1))
      else Some m)"
  by pat_completeness auto

termination fill_array_loop
  by (relation "measure (\<lambda>(m, n, i). unat n - unat i)") (simp, unat_arith)

declare fill_array_loop.simps [simp del]

definition fill_array :: "memory \<Rightarrow> size_t \<Rightarrow> memory option" where
  "fill_array m n = fill_array_loop m n 0"

text \<open>
  \<^verbatim>\<open>
  void fill_array_2d(double *arr, size_t rows, size_t cols) {
      for (size_t i = 0; i < rows; ++i) {
          for (size_t j = 0; j < cols; ++j) {
              arr[i * cols + j] = (double)(i * cols + j);
          }
      }
  }
  \<close>
  The offset \<open>i * cols + j\<close> is computed in \<^verbatim>\<open>size_t\<close>, so it wraps modulo \<open>2 ^ 64\<close>.
\<close>

function fill_array_2d_inner :: "memory \<Rightarrow> size_t \<Rightarrow> size_t \<Rightarrow> size_t \<Rightarrow> memory option" where
  "fill_array_2d_inner m cols i j =
     (if j < cols
      then (case store m (unat (i * cols + j)) (double_of_size_t (i * cols + j)) of
              None \<Rightarrow> None
            | Some m' \<Rightarrow> fill_array_2d_inner m' cols i (j + 1))
      else Some m)"
  by pat_completeness auto

termination fill_array_2d_inner
  by (relation "measure (\<lambda>(m, cols, i, j). unat cols - unat j)") (simp, unat_arith)

declare fill_array_2d_inner.simps [simp del]

function fill_array_2d_outer :: "memory \<Rightarrow> size_t \<Rightarrow> size_t \<Rightarrow> size_t \<Rightarrow> memory option" where
  "fill_array_2d_outer m rows cols i =
     (if i < rows
      then (case fill_array_2d_inner m cols i 0 of
              None \<Rightarrow> None
            | Some m' \<Rightarrow> fill_array_2d_outer m' rows cols (i + 1))
      else Some m)"
  by pat_completeness auto

termination fill_array_2d_outer
  by (relation "measure (\<lambda>(m, rows, cols, i). unat rows - unat i)") (simp, unat_arith)

declare fill_array_2d_outer.simps [simp del]

definition fill_array_2d :: "memory \<Rightarrow> size_t \<Rightarrow> size_t \<Rightarrow> memory option" where
  "fill_array_2d m rows cols = fill_array_2d_outer m rows cols 0"

text \<open>
  The element count of an object in memory is representable in \<^verbatim>\<open>size_t\<close>.
\<close>

definition valid_memory :: "memory \<Rightarrow> bool" where
  "valid_memory m \<longleftrightarrow> length (cells m) < 2 ^ 64"

section \<open>The Python wrappers\<close>

subsection \<open>Array objects and the heap\<close>

text \<open>
  The wrappers hand their argument to NumPy before the native call. What NumPy sees of an
  argument is the element type of its storage, its shape and whether it is laid out
  C-contiguously. The storage of an array is one of:
  \<^item> \<open>Floats\<close>: \<^verbatim>\<open>float64\<close> elements;
  \<^item> \<open>Integers\<close>: elements of a fixed-width integer dtype, by their values;
  \<^item> \<open>Objects\<close>: anything else (strings, Python objects, nested lists). An element is
    \<open>Convertible d\<close> when NumPy's conversion to \<^verbatim>\<open>float64\<close> accepts it and stores \<open>d\<close>:
    a Python number, a numeric string such as \<^verbatim>\<open>'1.5'\<close>, and also \<^verbatim>\<open>None\<close>, which NumPy
    stores as NaN without raising. It is \<open>Inconvertible\<close> when the conversion raises:
    \<^verbatim>\<open>ValueError\<close> for a string such as \<^verbatim>\<open>'abc'\<close>, \<^verbatim>\<open>TypeError\<close> for an object such as a
    dict.
  The elements are listed in row-major order.
\<close>

datatype pyobj = Convertible double | Inconvertible

datatype contents = Floats "double list" | Integers "int list" | Objects "pyobj list"

record ndarray =
  data :: nat
  shape :: "nat list"
  c_contiguous :: bool

text \<open>
  The heap maps the address of a storage to its contents; addresses from \<open>next_addr\<close> on
  are not yet allocated.
\<close>

record pystate =
  heap :: "nat \<Rightarrow> contents"
  next_addr :: nat

text \<open>
  The exceptions the wrappers can raise:
  \<^item> \<open>ConversionError\<close>: the \<^verbatim>\<open>ValueError\<close> or \<^verbatim>\<open>TypeError\<close> of
    \<^verbatim>\<open>np.ascontiguousarray\<close> when an element cannot be converted to \<^verbatim>\<open>float64\<close>;
  \<^item> \<open>UnpackError\<close>: the \<^verbatim>\<open>ValueError\<close> of \<^verbatim>\<open>rows, cols = arr.shape\<close> when the shape
    does not have two entries;
  \<^item> \<open>ArgumentError\<close>: the \<^verbatim>\<open>ctypes.ArgumentError\<close> of the \<^verbatim>\<open>ndpointer\<close> argument
    check;
  \<^item> \<open>NativeFault\<close>: the native routine ran into undefined behaviour.
\<close>

datatype error = ConversionError | UnpackError | ArgumentError | NativeFault

definition double_of_int :: "int \<Rightarrow> double" where
  "double_of_int x =
     (if x < 0
      then (case double_of_nat (nat (- x)) of Double s e f \<Rightarrow> Double True e f)
      else double_of_nat (nat x))"

text \<open>
  The conversion of one element and of a whole storage to \<^verbatim>\<open>float64\<close>, as NumPy does
  it for \<^verbatim>\<open>dtype=np.float64\<close>; \<open>None\<close> stands for the exception.
\<close>

fun as_float64 :: "pyobj \<Rightarrow> double option" where
  "as_float64 (Convertible d) = Some d"
| "as_float64 Inconvertible = None"

fun to_float64 :: "contents \<Rightarrow> double list option" where
  "to_float64 (Floats xs) = Some xs"
| "to_float64 (Integers xs) = Some (map double_of_int xs)"
| "to_float64 (Objects xs) = those (map as_float64 xs)"

fun is_float64 :: "contents \<Rightarrow> bool" where
  "is_float64 (Floats xs) = True"
| "is_float64 (Integers xs) = False"
| "is_float64 (Objects xs) = False"


definition allocate :: "pystate \<Rightarrow> double list \<Rightarrow> nat list \<Rightarrow> pystate \<times> ndarray" where
  "allocate s xs shp =
     (s\<lparr>heap := (heap s)(next_addr s := Floats xs), next_addr := Suc (next_addr s)\<rparr>,
      \<lparr>data = next_addr s, shape = shp, c_contiguous = True\<rparr>)"

text \<open>
  \<^verbatim>\<open>np.ascontiguousarray(arr, dtype=np.float64)\<close>: the result has at least one dimension
  (a 0-dimensional argument becomes an array of shape \<open>[1]\<close>). An argument that is
  already a C-contiguous \<^verbatim>\<open>float64\<close> array is returned on its own storage; anything else
  is converted into a newly allocated C-contiguous \<^verbatim>\<open>float64\<close> array, and the
  conversion raises when an element is not convertible.
\<close>

definition ascontiguousarray :: "pystate \<Rightarrow> ndarray \<Rightarrow> error + pystate \<times> ndarray" where
  "ascontiguousarray s a =
     (let shp = (if shape a = [] then [1] else shape a) in
      if is_float64 (heap s (data a)) \<and> c_contiguous a
      then Inr (s, a\<lparr>shape := shp\<rparr>)
      else (case to_float64 (heap s (data a)) of
              None \<Rightarrow> Inl ConversionError
            | Some xs \<Rightarrow> Inr (allocate s xs shp)))"

text \<open>
  The argument check of
  \<^verbatim>\<open>np.ctypeslib.ndpointer(dtype=np.float64, ndim=nd, flags='C_CONTIGUOUS')\<close>.
\<close>

definition ndpointer :: "nat \<Rightarrow> pystate \<Rightarrow> ndarray \<Rightarrow> bool" where
  "ndpointer nd s a \<longleftrightarrow>
     is_float64 (heap s (data a)) \<and> length (shape a) = nd \<and> c_contiguous a"

text \<open>
  The foreign calls \<^verbatim>\<open>lib.fill_array(arr, size)\<close> and
  \<^verbatim>\<open>lib2d.fill_array_2d(arr, rows, cols)\<close>: the array argument is checked, the Python
  integers are converted to \<^verbatim>\<open>size_t\<close> (modulo \<open>2 ^ 64\<close>), and the native routine runs on
  the storage of the array.
\<close>

definition lib_fill_array :: "pystate \<Rightarrow> ndarray \<Rightarrow> nat \<Rightarrow> error + pystate" where
  "lib_fill_array s arr sz =
     (if \<not> ndpointer 1 s arr then Inl ArgumentError
      else (case heap s (data arr) of
              Floats xs \<Rightarrow>
                (case fill_array \<lparr>cells = xs, writes = []\<rparr> (of_nat sz) of
                   None \<Rightarrow> Inl NativeFault
                 | Some m \<Rightarrow> Inr (s\<lparr>heap := (heap s)(data arr := Floats (cells m))\<rparr>))
            | Integers xs \<Rightarrow> Inl ArgumentError
            | Objects xs \<Rightarrow> Inl ArgumentError))"

definition lib2d_fill_array_2d :: "pystate \<Rightarrow> ndarray \<Rightarrow> nat \<Rightarrow> nat \<Rightarrow> error + pystate" where
  "lib2d_fill_array_2d s arr rows cols =
     (if \<not> ndpointer 2 s arr then Inl ArgumentError
      else (case heap s (data arr) of
              Floats xs \<Rightarrow>
                (case fill_array_2d \<lparr>cells = xs, writes = []\<rparr> (of_nat rows) (of_nat cols) of
                   None \<Rightarrow> Inl NativeFault
                 | Some m \<Rightarrow> Inr (s\<lparr>heap := (heap s)(data arr := Floats (cells m))\<rparr>))
            | Integers xs \<Rightarrow> Inl ArgumentError
            | Objects xs \<Rightarrow> Inl ArgumentError))"

text \<open>
  \<^verbatim>\<open>
  def fill_array(arr):
      arr = np.ascontiguousarray(arr, dtype=np.float64)
      size = arr.size
      lib.fill_array(arr, size)
  \<close>
\<close>

definition py_fill_array :: "pystate \<Rightarrow> ndarray \<Rightarrow> error + pystate" where
  "py_fill_array s a =
     (case ascontiguousarray s a of
        Inl e \<Rightarrow> Inl e
      | Inr (s', arr) \<Rightarrow> lib_fill_array s' arr (prod_list (shape arr)))"

text \<open>
  \<^verbatim>\<open>
  def fill_array_2d(arr):
      arr = np.ascontiguousarray(arr, dtype=np.float64)
      rows, cols = arr.shape
      lib2d.fill_array_2d(arr, rows, cols)
  \<close>
\<close>

definition py_fill_array_2d :: "pystate \<Rightarrow> ndarray \<Rightarrow> error + pystate" where
  "py_fill_array_2d s a =
     (case ascontiguousarray s a of
        Inl e \<Rightarrow> Inl e
      | Inr (s', arr) \<Rightarrow>
          (case shape arr of
             [rows, cols] \<Rightarrow> lib2d_fill_array_2d s' arr rows cols
           | _ \<Rightarrow> Inl UnpackError))"

text \<open>
  An array object of a state is well formed when its storage is allocated and holds as
  many elements as its shape says, a number that fits \<^verbatim>\<open>size_t\<close>.
\<close>

fun elements :: "contents \<Rightarrow> nat" where
  "elements (Floats xs) = length xs"
| "elements (Integers xs) = length xs"
| "elements (Objects xs) = length xs"

definition wf_array :: "pystate \<Rightarrow> ndarray \<Rightarrow> bool" where
  "wf_array s a \<longleftrightarrow>
     data a < next_addr s \<and> elements (heap s (data a)) = prod_list (shape a) \<and>
     prod_list (shape a) < 2 ^ 64"

section \<open>Auxiliary definitions\<close>

text \<open>
  The memory after the slots \<open>a..<b\<close> have been stored to in ascending order, each with
  its own offset as a double. The loops are characterised through it below.
\<close>

definition filled_range :: "memory \<Rightarrow> nat \<Rightarrow> nat \<Rightarrow> memory" where
  "filled_range m a b =
     m\<lparr>cells := take a (cells m) @ map double_of_nat [a..<b] @ drop b (cells m),
       writes := writes m @ [a..<b]\<rparr>"

section \<open>Properties of the double conversion\<close>


lemma bit_length_upper: "n < 2 ^ k \<Longrightarrow> bit_length n \<le> k"
proof (induction n arbitrary: k rule: bit_length.induct)
  case (1 n)
  show ?case
  proof (cases "n = 0")
    case True
    then show ?thesis by (simp add: bit_length.simps)
  next
    case False
    then obtain k' where k: "k = Suc k'" using "1.prems" by (cases k) auto
    then have "n div 2 < 2 ^ k'" using "1.prems" by auto
    then have "bit_length (n div 2) \<le> k'" using "1.IH" False by simp
    then show ?thesis using False k by (subst bit_length.simps) simp
  qed
qed


lemma bit_length_less: "n < 2 ^ bit_length n"
proof (induction n rule: bit_length.induct)
  case (1 n)
  show ?case
  proof (cases "n = 0")
    case True
    then show ?thesis by simp
  next
    case False
    then have "n div 2 < 2 ^ bit_length (n div 2)" using "1.IH" by simp
    then have "n < 2 * 2 ^ bit_length (n div 2)" by linarith
    then show ?thesis using False by (subst bit_length.simps) simp
  qed
qed

lemma bit_length_eq:
  assumes "2 ^ k \<le> n" "n < 2 ^ Suc k"
  shows "bit_length n = Suc k"
proof -
  have "bit_length n \<le> Suc k" using assms(2) by (rule bit_length_upper)
  moreover have "k < bit_length n"
  proof (rule ccontr)
    assume "\<not> k < bit_length n"
    then have "(2::nat) ^ bit_length n \<le> 2 ^ k" by (simp add: power_increasing)
    with bit_length_less [of n] assms(1) show False by linarith
  qed
  ultimately show ?thesis by simp
qed

lemma bit_length_2_53_1: "bit_length 9007199254740993 = 54"
  using bit_length_eq [of 53 9007199254740993] by simp

lemma double_of_nat_2_53_1: "double_of_nat 9007199254740993 = Double False 1076 0"
  by (simp add: double_of_nat_def bit_length_2_53_1 Let_def)

lemma valof_double_of_nat_2_53_1: "valof (double_of_nat 9007199254740993) = Some 9007199254740992"
  by (simp add: double_of_nat_2_53_1 valof_def Let_def)

lemma double_of_nat_0: "double_of_nat 0 = Double False 0 0"
  by (simp add: double_of_nat_def)

lemma double_of_nat_1: "double_of_nat 1 = Double False 1023 0"
proof -
  have "bit_length 1 = 1" using bit_length_eq [of 0 1] by simp
  then show ?thesis by (simp add: double_of_nat_def)
qed

lemma double_of_nat_2: "double_of_nat 2 = Double False 1024 0"
proof -
  have "bit_length 2 = 2" using bit_length_eq [of 1 2] by simp
  then show ?thesis by (simp add: double_of_nat_def)
qed

lemma double_of_nat_3: "double_of_nat 3 = Double False 1024 2251799813685248"
proof -
  have "bit_length 3 = 2" using bit_length_eq [of 1 3] by simp
  then show ?thesis by (simp add: double_of_nat_def)
qed

lemma double_of_nat_Suc_0: "double_of_nat (Suc 0) = Double False 1023 0"
  using double_of_nat_1 by simp



section \<open>What the loops compute\<close>

lemma filled_range_empty: "filled_range m a a = m"
  by (simp add: filled_range_def)

lemma length_filled_range:
  "a \<le> b \<Longrightarrow> b \<le> length (cells m) \<Longrightarrow> length (cells (filled_range m a b)) = length (cells m)"
  by (simp add: filled_range_def)

lemma store_filled_range:
  "a < length (cells m) \<Longrightarrow> store m a (double_of_nat a) = Some (filled_range m a (Suc a))"
  by (simp add: store_def filled_range_def upd_conv_take_nth_drop)

lemma filled_range_join:
  assumes "a \<le> b" "b \<le> c" "c \<le> length (cells m)"
  shows "filled_range (filled_range m a b) b c = filled_range m a c"
proof -
  have u: "[a..<c] = [a..<b] @ [b..<c]"
    using assms by (metis le_Suc_ex upt_add_eq_append)
  show ?thesis using assms by (simp add: filled_range_def u)
qed

lemma fill_array_loop_filled:
  "i \<le> n \<Longrightarrow> unat n \<le> length (cells m) \<Longrightarrow>
   fill_array_loop m n i = Some (filled_range m (unat i) (unat n))"
proof (induction m n i rule: fill_array_loop.induct)
  case (1 m n i)
  show ?case
  proof (cases "i < n")
    case True
    then have lt: "unat i < unat n" by (simp add: word_less_nat_alt)
    have suc: "unat (i + 1) = Suc (unat i)" using True by unat_arith
    have le: "i + 1 \<le> n" using True by (rule inc_le)
    let ?m1 = "filled_range m (unat i) (Suc (unat i))"
    have st: "store m (unat i) (double_of_size_t i) = Some ?m1"
      using lt "1.prems" by (simp add: double_of_size_t_def store_filled_range)
    have len: "unat n \<le> length (cells ?m1)"
      using lt "1.prems" by (simp add: length_filled_range)
    have "fill_array_loop ?m1 n (i + 1) = Some (filled_range ?m1 (unat (i + 1)) (unat n))"
      using "1.IH" [OF True st le len] .
    also have "filled_range ?m1 (unat (i + 1)) (unat n) = filled_range m (unat i) (unat n)"
      using lt "1.prems" by (simp add: suc filled_range_join)
    finally show ?thesis
      using True st by (subst fill_array_loop.simps) simp
  next
    case False
    with "1.prems" have "i = n" by simp
    then show ?thesis
      by (subst fill_array_loop.simps) (simp add: filled_range_empty)
  qed
qed

lemma unat_flat_index:
  fixes i j cols :: size_t
  assumes "unat i * unat cols + unat j < 2 ^ 64"
  shows "unat (i * cols + j) = unat i * unat cols + unat j"
proof -
  have "unat i * unat cols < 2 ^ LENGTH(64)" using assms by simp
  then have m: "unat (i * cols) = unat i * unat cols" by (simp only: unat_mult_lem)
  have "unat (i * cols) + unat j < 2 ^ LENGTH(64)" using assms m by simp
  then have "unat (i * cols + j) = unat (i * cols) + unat j" by (simp only: unat_add_lem)
  then show ?thesis by (simp add: m)
qed

lemma fill_array_2d_inner_filled:
  "j \<le> cols \<Longrightarrow> unat i * unat cols + unat cols \<le> length (cells m) \<Longrightarrow> valid_memory m \<Longrightarrow>
   fill_array_2d_inner m cols i j =
     Some (filled_range m (unat i * unat cols + unat j) (unat i * unat cols + unat cols))"
proof (induction m cols i j rule: fill_array_2d_inner.induct)
  case (1 m cols i j)
  let ?b = "unat i * unat cols"
  show ?case
  proof (cases "j < cols")
    case True
    then have lt: "unat j < unat cols" by (simp add: word_less_nat_alt)
    have suc: "unat (j + 1) = Suc (unat j)" using True by unat_arith
    have le: "j + 1 \<le> cols" using True by (rule inc_le)
    have "?b + unat j < 2 ^ 64" using lt "1.prems" by (simp add: valid_memory_def)
    then have idx: "unat (i * cols + j) = ?b + unat j" by (rule unat_flat_index)
    let ?m1 = "filled_range m (?b + unat j) (Suc (?b + unat j))"
    have st: "store m (unat (i * cols + j)) (double_of_size_t (i * cols + j)) = Some ?m1"
      using lt "1.prems" by (simp add: double_of_size_t_def idx store_filled_range)
    have len: "length (cells ?m1) = length (cells m)"
      using lt "1.prems" by (simp add: length_filled_range)
    have v: "valid_memory ?m1" using "1.prems" len by (simp add: valid_memory_def)
    have "fill_array_2d_inner ?m1 cols i (j + 1) =
        Some (filled_range ?m1 (?b + unat (j + 1)) (?b + unat cols))"
      using "1.IH" [OF True st le _ v] "1.prems" len by simp
    also have "filled_range ?m1 (?b + unat (j + 1)) (?b + unat cols) =
        filled_range m (?b + unat j) (?b + unat cols)"
      using lt "1.prems" by (simp add: suc filled_range_join)
    finally show ?thesis
      using True st by (subst fill_array_2d_inner.simps) simp
  next
    case False
    with "1.prems" have "j = cols" by simp
    then show ?thesis
      by (subst fill_array_2d_inner.simps) (simp add: filled_range_empty)
  qed
qed

lemma fill_array_2d_outer_filled:
  "i \<le> rows \<Longrightarrow> unat rows * unat cols \<le> length (cells m) \<Longrightarrow> valid_memory m \<Longrightarrow>
   fill_array_2d_outer m rows cols i =
     Some (filled_range m (unat i * unat cols) (unat rows * unat cols))"
proof (induction m rows cols i rule: fill_array_2d_outer.induct)
  case (1 m rows cols i)
  let ?b = "unat i * unat cols"
  let ?N = "unat rows * unat cols"
  show ?case
  proof (cases "i < rows")
    case True
    then have lt: "unat i < unat rows" by (simp add: word_less_nat_alt)
    have suc: "unat (i + 1) = Suc (unat i)" using True by unat_arith
    have le: "i + 1 \<le> rows" using True by (rule inc_le)
    have nxt: "unat (i + 1) * unat cols = ?b + unat cols" by (simp add: suc)
    have "Suc (unat i) * unat cols \<le> ?N" by (rule mult_le_mono1) (use lt in simp)
    then have row: "?b + unat cols \<le> ?N" by simp
    let ?m1 = "filled_range m ?b (?b + unat cols)"
    have inner: "fill_array_2d_inner m cols i 0 = Some ?m1"
      using fill_array_2d_inner_filled [where j = 0 and cols = cols and i = i and m = m] row "1.prems" by simp
    have len: "length (cells ?m1) = length (cells m)"
      using row "1.prems" by (simp add: length_filled_range)
    have v: "valid_memory ?m1" using "1.prems" len by (simp add: valid_memory_def)
    have "fill_array_2d_outer ?m1 rows cols (i + 1) =
        Some (filled_range ?m1 (unat (i + 1) * unat cols) ?N)"
      using "1.IH" [OF True inner le _ v] "1.prems" len by simp
    also have "filled_range ?m1 (unat (i + 1) * unat cols) ?N = filled_range m ?b ?N"
      unfolding nxt by (rule filled_range_join) (use row "1.prems" in simp_all)
    finally show ?thesis
      using True inner by (subst fill_array_2d_outer.simps) simp
  next
    case False
    with "1.prems" have "i = rows" by simp
    then show ?thesis
      by (subst fill_array_2d_outer.simps) (simp add: filled_range_empty)
  qed
qed

lemma fill_array_filled:
  "unat n \<le> length (cells m) \<Longrightarrow> fill_array m n = Some (filled_range m 0 (unat n))"
  using fill_array_loop_filled [where i = 0 and n = n and m = m] by (simp add: fill_array_def)

lemma fill_array_2d_filled:
  "unat rows * unat cols \<le> length (cells m) \<Longrightarrow> valid_memory m \<Longrightarrow>
   fill_array_2d m rows cols = Some (filled_range m 0 (unat rows * unat cols))"
  using fill_array_2d_outer_filled [where i = 0 and rows = rows and m = m and cols = cols] by (simp add: fill_array_2d_def)

lemma cells_filled_range_all:
  "length (cells m) = n \<Longrightarrow> cells (filled_range m 0 n) = map double_of_nat [0..<n]"
  by (simp add: filled_range_def)

lemma writes_filled_range: "writes (filled_range m a b) = writes m @ [a..<b]"
  by (simp add: filled_range_def)

lemma flat_index_less:
  fixes i j r c :: nat
  assumes "i < r" "j < c"
  shows "i * c + j < r * c"
proof -
  have "i * c + j < i * c + c" using assms(2) by simp
  also have "\<dots> = Suc i * c" by simp
  also have "\<dots> \<le> r * c" by (rule mult_le_mono1) (use assms(1) in simp)
  finally show ?thesis .
qed

lemma unat_mult_valid:
  fixes rows cols :: size_t
  assumes "unat rows * unat cols < 2 ^ 64"
  shows "unat (rows * cols) = unat rows * unat cols"
proof -
  have "unat rows * unat cols < 2 ^ LENGTH(64)" using assms by simp
  then show ?thesis by (simp only: unat_mult_lem)
qed

lemma fill_array_2d_inner_no_cols: "fill_array_2d_inner m 0 i 0 = Some m"
  by (subst fill_array_2d_inner.simps) simp

lemma fill_array_2d_outer_no_cols: "fill_array_2d_outer m rows 0 i = Some m"
proof (induction m rows "0 :: size_t" i rule: fill_array_2d_outer.induct)
  case (1 m rows i)
  show ?case
  proof (cases "i < rows")
    case True
    then show ?thesis
      using "1.hyps" [OF True fill_array_2d_inner_no_cols]
      by (subst fill_array_2d_outer.simps) (simp add: fill_array_2d_inner_no_cols)
  next
    case False
    then show ?thesis by (subst fill_array_2d_outer.simps) simp
  qed
qed

lemma fill_zero_size_lemma:
  "fill_array_2d m 0 cols = Some m \<and> fill_array_2d m rows 0 = Some m"
proof
  show "fill_array_2d m 0 cols = Some m"
    unfolding fill_array_2d_def by (subst fill_array_2d_outer.simps) simp
  show "fill_array_2d m rows 0 = Some m"
    unfolding fill_array_2d_def by (rule fill_array_2d_outer_no_cols)
qed

section \<open>What the wrappers compute\<close>

lemma unat_of_nat_small: "N < 2 ^ 64 \<Longrightarrow> unat (of_nat N :: size_t) = N"
  by (simp add: unat_of_nat take_bit_nat_eq_self)

lemma native_fill_array:
  assumes "length xs = N" "N < 2 ^ 64"
  shows "\<exists>m. fill_array \<lparr>cells = xs, writes = []\<rparr> (of_nat N) = Some m \<and>
           cells m = map double_of_nat [0..<N]"
proof -
  let ?m = "\<lparr>cells = xs, writes = []\<rparr>"
  have u: "unat (of_nat N :: size_t) = N" using assms(2) by (rule unat_of_nat_small)
  have "fill_array ?m (of_nat N) = Some (filled_range ?m 0 N)"
    using fill_array_filled [of "of_nat N" ?m] assms(1) u by simp
  moreover have "cells (filled_range ?m 0 N) = map double_of_nat [0..<N]"
    using assms(1) by (simp add: cells_filled_range_all)
  ultimately show ?thesis by simp
qed

lemma native_fill_array_2d:
  assumes "length xs = r * c" "r * c < 2 ^ 64"
  shows "\<exists>m. fill_array_2d \<lparr>cells = xs, writes = []\<rparr> (of_nat r) (of_nat c) = Some m \<and>
           cells m = map double_of_nat [0..<r * c]"
proof -
  let ?m = "\<lparr>cells = xs, writes = []\<rparr>"
  consider "r = 0" | "c = 0" | "0 < r" "0 < c" by auto
  then show ?thesis
  proof cases
    case 1
    then show ?thesis using assms(1) fill_zero_size_lemma [of ?m "of_nat c" 0] by simp
  next
    case 2
    then show ?thesis using assms(1) fill_zero_size_lemma [of ?m 0 "of_nat r"] by simp
  next
    case 3
    have "r \<le> r * c" using 3 by (cases c) simp_all
    moreover have "c \<le> r * c" using 3 by (cases r) simp_all
    ultimately have "r < 2 ^ 64" "c < 2 ^ 64" using assms(2) by linarith+
    then have u: "unat (of_nat r :: size_t) = r" "unat (of_nat c :: size_t) = c"
      by (simp_all add: unat_of_nat_small)
    have v: "valid_memory ?m" using assms by (simp add: valid_memory_def)
    have "fill_array_2d ?m (of_nat r) (of_nat c) = Some (filled_range ?m 0 (r * c))"
      using fill_array_2d_filled [of "of_nat r" "of_nat c" ?m] assms(1) u v by simp
    moreover have "cells (filled_range ?m 0 (r * c)) = map double_of_nat [0..<r * c]"
      using assms(1) by (simp add: cells_filled_range_all)
    ultimately show ?thesis by simp
  qed
qed

lemma those_length: "those ys = Some xs \<Longrightarrow> length xs = length ys"
  by (induction ys arbitrary: xs) (auto split: option.splits)

lemma to_float64_length: "to_float64 c = Some xs \<Longrightarrow> length xs = elements c"
  by (cases c) (auto dest: those_length)

lemma is_float64_Floats: "is_float64 c \<Longrightarrow> \<exists>xs. c = Floats xs"
  by (cases c) simp_all

lemma py_fill_array_inplace:
  assumes "wf_array s a" "is_float64 (heap s (data a))" "c_contiguous a" "length (shape a) \<le> 1"
  shows "py_fill_array s a =
    Inr (s\<lparr>heap := (heap s)(data a := Floats (map double_of_nat [0..<prod_list (shape a)]))\<rparr>)"
proof -
  let ?N = "prod_list (shape a)"
  let ?shp = "if shape a = [] then [1] else shape a"
  obtain xs where xs: "heap s (data a) = Floats xs" using assms(2) is_float64_Floats by blast
  have len: "length xs = ?N" and small: "?N < 2 ^ 64"
    using assms(1) xs by (simp_all add: wf_array_def)
  have shp: "length ?shp = 1" "prod_list ?shp = ?N"
    using assms(4) by (cases "shape a"; simp)+
  from native_fill_array [OF len small] obtain m where
    m: "fill_array \<lparr>cells = xs, writes = []\<rparr> (of_nat ?N) = Some m"
      "cells m = map double_of_nat [0..<?N]" by blast
  have "ascontiguousarray s a = Inr (s, a\<lparr>shape := ?shp\<rparr>)"
    using assms(2,3) by (simp add: ascontiguousarray_def Let_def)
  then show ?thesis
    using xs shp m assms(3)
    by (simp add: py_fill_array_def lib_fill_array_def ndpointer_def)
qed

lemma py_fill_array_copy:
  assumes "wf_array s a" "\<not> (is_float64 (heap s (data a)) \<and> c_contiguous a)"
    "to_float64 (heap s (data a)) = Some xs" "length (shape a) \<le> 1"
  shows "py_fill_array s a =
    Inr (s\<lparr>heap := (heap s)(next_addr s := Floats (map double_of_nat [0..<prod_list (shape a)])),
          next_addr := Suc (next_addr s)\<rparr>)"
proof -
  let ?N = "prod_list (shape a)"
  let ?shp = "if shape a = [] then [1] else shape a"
  have len: "length xs = ?N" and small: "?N < 2 ^ 64"
    using assms(1) to_float64_length [OF assms(3)] by (simp_all add: wf_array_def)
  have shp: "length ?shp = 1" "prod_list ?shp = ?N"
    using assms(4) by (cases "shape a"; simp)+
  from native_fill_array [OF len small] obtain m where
    m: "fill_array \<lparr>cells = xs, writes = []\<rparr> (of_nat ?N) = Some m"
      "cells m = map double_of_nat [0..<?N]" by blast
  have "ascontiguousarray s a = Inr (allocate s xs ?shp)"
    using assms(2,3) by (auto simp: ascontiguousarray_def Let_def)
  then show ?thesis
    using shp m
    by (simp add: py_fill_array_def lib_fill_array_def ndpointer_def allocate_def)
qed

lemma py_fill_array_2d_inplace:
  assumes "wf_array s a" "is_float64 (heap s (data a))" "c_contiguous a" "length (shape a) = 2"
  shows "py_fill_array_2d s a =
    Inr (s\<lparr>heap := (heap s)(data a := Floats (map double_of_nat [0..<prod_list (shape a)]))\<rparr>)"
proof -
  obtain r c where rc: "shape a = [r, c]"
    using assms(4) by (cases "shape a"; simp; rename_tac aa list; case_tac list; simp)
  obtain xs where xs: "heap s (data a) = Floats xs" using assms(2) is_float64_Floats by blast
  have len: "length xs = r * c" and small: "r * c < 2 ^ 64"
    using assms(1) xs rc by (simp_all add: wf_array_def)
  from native_fill_array_2d [OF len small] obtain m where
    m: "fill_array_2d \<lparr>cells = xs, writes = []\<rparr> (of_nat r) (of_nat c) = Some m"
      "cells m = map double_of_nat [0..<r * c]" by blast
  have "ascontiguousarray s a = Inr (s, a)"
    using assms(2,3) rc by (simp add: ascontiguousarray_def Let_def)
  then show ?thesis
    using xs rc m assms(3)
    by (simp add: py_fill_array_2d_def lib2d_fill_array_2d_def ndpointer_def)
qed

lemma py_fill_array_2d_copy:
  assumes "wf_array s a" "\<not> (is_float64 (heap s (data a)) \<and> c_contiguous a)"
    "to_float64 (heap s (data a)) = Some xs" "length (shape a) = 2"
  shows "py_fill_array_2d s a =
    Inr (s\<lparr>heap := (heap s)(next_addr s := Floats (map double_of_nat [0..<prod_list (shape a)])),
          next_addr := Suc (next_addr s)\<rparr>)"
proof -
  obtain r c where rc: "shape a = [r, c]"
    using assms(4) by (cases "shape a"; simp; rename_tac aa list; case_tac list; simp)
  have len: "length xs = r * c" and small: "r * c < 2 ^ 64"
    using assms(1) to_float64_length [OF assms(3)] rc by (simp_all add: wf_array_def)
  from native_fill_array_2d [OF len small] obtain m where
    m: "fill_array_2d \<lparr>cells = xs, writes = []\<rparr> (of_nat r) (of_nat c) = Some m"
      "cells m = map double_of_nat [0..<r * c]" by blast
  have "ascontiguousarray s a = Inr (allocate s xs [r, c])"
    using assms(2,3) rc by (auto simp: ascontiguousarray_def Let_def)
  then show ?thesis
    using rc m
    by (simp add: py_fill_array_2d_def lib2d_fill_array_2d_def ndpointer_def allocate_def)
qed











section \<open>The claims\<close>

text \<open>
  C1. For every \<open>n\<close>, after the 1-D routine has run on a buffer of \<open>n\<close> doubles, slot \<open>i\<close>
  holds \<open>i\<close> converted to a double, for every \<open>i < n\<close>. The routine returns (no undefined
  behaviour) and the buffer keeps its length.
\<close>

theorem fill_array_slots:
  assumes "length (cells m) = unat n"
  shows "\<exists>m'. fill_array m n = Some m' \<and> length (cells m') = unat n \<and>
           (\<forall>i<unat n. cells m' ! i = double_of_nat i)"
proof -
  have "fill_array m n = Some (filled_range m 0 (unat n))"
    using assms by (simp add: fill_array_filled)
  moreover have "cells (filled_range m 0 (unat n)) = map double_of_nat [0..<unat n]"
    using assms by (rule cells_filled_range_all)
  ultimately show ?thesis by simp
qed

theorem fill_array_slots_witness:
  "\<exists>m'. fill_array \<lparr>cells = [Double True 7 9, Double False 0 0, Double False 2047 1], writes = []\<rparr> 3
          = Some m' \<and>
        cells m' ! 0 = Double False 0 0 \<and> cells m' ! 1 = Double False 1023 0 \<and>
        cells m' ! 2 = Double False 1024 0"
proof -
  let ?m = "\<lparr>cells = [Double True 7 9, Double False 0 0, Double False 2047 1], writes = []\<rparr>"
  have "length (cells ?m) = unat (3 :: size_t)" by simp
  from fill_array_slots [OF this] obtain m' where
    r: "fill_array ?m 3 = Some m'" and l: "length (cells m') = 3"
    and s: "\<forall>i<3. cells m' ! i = double_of_nat i" by auto
  have "cells m' ! 0 = double_of_nat 0" using s by simp
  then have "cells m' ! 0 = Double False 0 0" by (simp only: double_of_nat_0)
  moreover have "cells m' ! 1 = double_of_nat 1" using s by simp
  then have "cells m' ! 1 = Double False 1023 0" by (simp only: double_of_nat_1)
  moreover have "cells m' ! 2 = double_of_nat 2" using s by simp
  then have "cells m' ! 2 = Double False 1024 0" by (simp only: double_of_nat_2)
  ultimately show ?thesis using r by simp
qed

text \<open>
  C2. For every \<open>rows\<close> and \<open>cols\<close>, after the 2-D routine has run on a row-major buffer of
  \<open>rows * cols\<close> doubles, the element at row \<open>i\<close>, column \<open>j\<close> (slot \<open>i * cols + j\<close>) holds
  \<open>i * cols + j\<close> converted to a double, for every \<open>i < rows\<close> and \<open>j < cols\<close>. The buffer is an
  object in memory, so its element count \<open>rows * cols\<close> fits \<^verbatim>\<open>size_t\<close>.
\<close>

theorem fill_array_2d_slots:
  assumes "valid_memory m" and "length (cells m) = unat rows * unat cols"
  shows "\<exists>m'. fill_array_2d m rows cols = Some m' \<and>
           length (cells m') = unat rows * unat cols \<and>
           (\<forall>i<unat rows. \<forall>j<unat cols.
              cells m' ! (i * unat cols + j) = double_of_nat (i * unat cols + j))"
proof -
  let ?N = "unat rows * unat cols"
  have "fill_array_2d m rows cols = Some (filled_range m 0 ?N)"
    using assms by (simp add: fill_array_2d_filled)
  moreover have "cells (filled_range m 0 ?N) = map double_of_nat [0..<?N]"
    using assms(2) by (rule cells_filled_range_all)
  ultimately show ?thesis by (simp add: flat_index_less)
qed

theorem fill_array_2d_slots_witness:
  "\<exists>m'. fill_array_2d
          \<lparr>cells = [Double True 7 9, Double False 0 0, Double False 2047 1, Double True 0 0],
           writes = []\<rparr> 2 2 = Some m' \<and>
        cells m' ! 2 = Double False 1024 0 \<and>
        cells m' ! 3 = Double False 1024 2251799813685248"
proof -
  let ?m = "\<lparr>cells = [Double True 7 9, Double False 0 0, Double False 2047 1, Double True 0 0],
             writes = []\<rparr>"
  have v: "valid_memory ?m" by (simp add: valid_memory_def)
  have "length (cells ?m) = unat (2 :: size_t) * unat (2 :: size_t)" by simp
  from fill_array_2d_slots [OF v this] obtain m' where
    r: "fill_array_2d ?m 2 2 = Some m'"
    and s: "\<forall>i<2. \<forall>j<2. cells m' ! (i * 2 + j) = double_of_nat (i * 2 + j)" by auto
  have "cells m' ! 2 = Double False 1024 0"
    using s [rule_format, of 1 0] by (simp add: double_of_nat_2)
  moreover have "cells m' ! 3 = Double False 1024 2251799813685248"
    using s [rule_format, of 1 1] by (simp add: double_of_nat_3)
  ultimately show ?thesis using r by simp
qed

text \<open>
  C3. On a row-major buffer of \<open>rows * cols\<close> doubles the 2-D routine and the 1-D routine
  called with \<open>n = rows * cols\<close> both return, and they return the same memory: the same
  slots, stored to in the same order.
\<close>

theorem fill_array_2d_equiv_fill_array:
  assumes "valid_memory m" and "length (cells m) = unat rows * unat cols"
  shows "\<exists>m'. fill_array_2d m rows cols = Some m' \<and> fill_array m (rows * cols) = Some m'"
proof -
  have n: "unat (rows * cols) = unat rows * unat cols"
    using assms by (intro unat_mult_valid) (simp add: valid_memory_def)
  have "fill_array_2d m rows cols = Some (filled_range m 0 (unat rows * unat cols))"
    using assms by (simp add: fill_array_2d_filled)
  moreover have "fill_array m (rows * cols) = Some (filled_range m 0 (unat rows * unat cols))"
    using assms n by (simp add: fill_array_filled)
  ultimately show ?thesis by simp
qed

theorem fill_array_2d_equiv_fill_array_witness:
  "\<exists>m'. fill_array_2d \<lparr>cells = [Double True 7 9, Double False 2047 1], writes = []\<rparr> 1 2 = Some m' \<and>
        fill_array \<lparr>cells = [Double True 7 9, Double False 2047 1], writes = []\<rparr> (1 * 2) = Some m'"
proof -
  let ?m = "\<lparr>cells = [Double True 7 9, Double False 2047 1], writes = []\<rparr>"
  have v: "valid_memory ?m" by (simp add: valid_memory_def)
  have "length (cells ?m) = unat (1 :: size_t) * unat (2 :: size_t)" by simp
  from fill_array_2d_equiv_fill_array [OF v this] show ?thesis .
qed

text \<open>
  C4, for the inputs the wrappers accept. For every well-formed input that the wrapper accepts (its elements
  convert to \<^verbatim>\<open>float64\<close>; it has at most one dimension for the 1-D wrapper, exactly two for
  the 2-D wrapper): if the input is already a C-contiguous \<^verbatim>\<open>float64\<close> array, nothing is
  allocated and the caller's storage holds the fill values afterwards, every other storage
  being unchanged; otherwise exactly one new buffer is allocated, it holds the fill values
  afterwards, and every other storage, the caller's included, is unchanged.
\<close>

theorem wrapper_in_place_or_copy:
  assumes "wf_array s a"
  shows
    "(is_float64 (heap s (data a)) \<and> c_contiguous a \<and> length (shape a) \<le> 1 \<longrightarrow>
        (\<exists>s'. py_fill_array s a = Inr s' \<and> next_addr s' = next_addr s \<and>
           heap s' (data a) = Floats (map double_of_nat [0..<prod_list (shape a)]) \<and>
           (\<forall>p. p \<noteq> data a \<longrightarrow> heap s' p = heap s p))) \<and>
     (\<not> (is_float64 (heap s (data a)) \<and> c_contiguous a) \<and>
      to_float64 (heap s (data a)) \<noteq> None \<and> length (shape a) \<le> 1 \<longrightarrow>
        (\<exists>s'. py_fill_array s a = Inr s' \<and> next_addr s' = Suc (next_addr s) \<and>
           heap s' (next_addr s) = Floats (map double_of_nat [0..<prod_list (shape a)]) \<and>
           (\<forall>p. p \<noteq> next_addr s \<longrightarrow> heap s' p = heap s p) \<and>
           heap s' (data a) = heap s (data a))) \<and>
     (is_float64 (heap s (data a)) \<and> c_contiguous a \<and> length (shape a) = 2 \<longrightarrow>
        (\<exists>s'. py_fill_array_2d s a = Inr s' \<and> next_addr s' = next_addr s \<and>
           heap s' (data a) = Floats (map double_of_nat [0..<prod_list (shape a)]) \<and>
           (\<forall>p. p \<noteq> data a \<longrightarrow> heap s' p = heap s p))) \<and>
     (\<not> (is_float64 (heap s (data a)) \<and> c_contiguous a) \<and>
      to_float64 (heap s (data a)) \<noteq> None \<and> length (shape a) = 2 \<longrightarrow>
        (\<exists>s'. py_fill_array_2d s a = Inr s' \<and> next_addr s' = Suc (next_addr s) \<and>
           heap s' (next_addr s) = Floats (map double_of_nat [0..<prod_list (shape a)]) \<and>
           (\<forall>p. p \<noteq> next_addr s \<longrightarrow> heap s' p = heap s p) \<and>
           heap s' (data a) = heap s (data a)))"
proof -
  have old: "data a \<noteq> next_addr s" using assms by (simp add: wf_array_def)
  show ?thesis
  proof (intro conjI impI)
    assume "is_float64 (heap s (data a)) \<and> c_contiguous a \<and> length (shape a) \<le> 1"
    then show "\<exists>s'. py_fill_array s a = Inr s' \<and> next_addr s' = next_addr s \<and>
        heap s' (data a) = Floats (map double_of_nat [0..<prod_list (shape a)]) \<and>
        (\<forall>p. p \<noteq> data a \<longrightarrow> heap s' p = heap s p)"
      using assms by (simp add: py_fill_array_inplace)
  next
    assume h: "\<not> (is_float64 (heap s (data a)) \<and> c_contiguous a) \<and>
      to_float64 (heap s (data a)) \<noteq> None \<and> length (shape a) \<le> 1"
    then obtain xs where "to_float64 (heap s (data a)) = Some xs" by auto
    then show "\<exists>s'. py_fill_array s a = Inr s' \<and> next_addr s' = Suc (next_addr s) \<and>
        heap s' (next_addr s) = Floats (map double_of_nat [0..<prod_list (shape a)]) \<and>
        (\<forall>p. p \<noteq> next_addr s \<longrightarrow> heap s' p = heap s p) \<and>
        heap s' (data a) = heap s (data a)"
      using assms h old py_fill_array_copy [of s a xs] by simp
  next
    assume "is_float64 (heap s (data a)) \<and> c_contiguous a \<and> length (shape a) = 2"
    then show "\<exists>s'. py_fill_array_2d s a = Inr s' \<and> next_addr s' = next_addr s \<and>
        heap s' (data a) = Floats (map double_of_nat [0..<prod_list (shape a)]) \<and>
        (\<forall>p. p \<noteq> data a \<longrightarrow> heap s' p = heap s p)"
      using assms by (simp add: py_fill_array_2d_inplace)
  next
    assume h: "\<not> (is_float64 (heap s (data a)) \<and> c_contiguous a) \<and>
      to_float64 (heap s (data a)) \<noteq> None \<and> length (shape a) = 2"
    then obtain xs where "to_float64 (heap s (data a)) = Some xs" by auto
    then show "\<exists>s'. py_fill_array_2d s a = Inr s' \<and> next_addr s' = Suc (next_addr s) \<and>
        heap s' (next_addr s) = Floats (map double_of_nat [0..<prod_list (shape a)]) \<and>
        (\<forall>p. p \<noteq> next_addr s \<longrightarrow> heap s' p = heap s p) \<and>
        heap s' (data a) = heap s (data a)"
      using assms h old py_fill_array_2d_copy [of s a xs] by simp
  qed
qed

theorem wrapper_in_place_or_copy_witness:
  "(\<exists>s'. py_fill_array
            \<lparr>heap = (\<lambda>p. Floats [])(0 := Floats [Double True 7 9, Double False 2047 1]),
             next_addr = 1\<rparr>
            \<lparr>data = 0, shape = [2], c_contiguous = True\<rparr> = Inr s' \<and>
          next_addr s' = 1 \<and> heap s' 0 = Floats [Double False 0 0, Double False 1023 0]) \<and>
   (\<exists>s'. py_fill_array
            \<lparr>heap = (\<lambda>p. Floats [])(0 := Integers [5, - 3]), next_addr = 1\<rparr>
            \<lparr>data = 0, shape = [2], c_contiguous = True\<rparr> = Inr s' \<and>
          next_addr s' = 2 \<and> heap s' 0 = Integers [5, - 3] \<and>
          heap s' 1 = Floats [Double False 0 0, Double False 1023 0]) \<and>
   (\<exists>s'. py_fill_array_2d
            \<lparr>heap = (\<lambda>p. Floats [])(0 := Floats [Double True 7 9, Double False 2047 1]),
             next_addr = 1\<rparr>
            \<lparr>data = 0, shape = [1, 2], c_contiguous = True\<rparr> = Inr s' \<and>
          next_addr s' = 1 \<and> heap s' 0 = Floats [Double False 0 0, Double False 1023 0]) \<and>
   (\<exists>s'. py_fill_array_2d
            \<lparr>heap = (\<lambda>p. Floats [])(0 := Floats [Double True 7 9, Double False 2047 1]),
             next_addr = 1\<rparr>
            \<lparr>data = 0, shape = [2, 1], c_contiguous = False\<rparr> = Inr s' \<and>
          next_addr s' = 2 \<and> heap s' 0 = Floats [Double True 7 9, Double False 2047 1] \<and>
          heap s' 1 = Floats [Double False 0 0, Double False 1023 0])"
proof (intro conjI)
  let ?sf = "\<lparr>heap = (\<lambda>p. Floats [])(0 := Floats [Double True 7 9, Double False 2047 1]),
              next_addr = 1\<rparr>"
  let ?si = "\<lparr>heap = (\<lambda>p. Floats [])(0 := Integers [5, - 3]), next_addr = 1\<rparr>"
  let ?a1 = "\<lparr>data = 0, shape = [2], c_contiguous = True\<rparr>"
  let ?a2 = "\<lparr>data = 0, shape = [1, 2], c_contiguous = True\<rparr>"
  let ?a3 = "\<lparr>data = 0, shape = [2, 1], c_contiguous = False\<rparr>"
  have u: "[0..<2] = [0, Suc 0]" by (simp add: upt_rec)
  have w1: "wf_array ?sf ?a1" by (simp add: wf_array_def)
  show "\<exists>s'. py_fill_array ?sf ?a1 = Inr s' \<and> next_addr s' = 1 \<and>
      heap s' 0 = Floats [Double False 0 0, Double False 1023 0]"
    using wrapper_in_place_or_copy [OF w1] by (auto simp: u double_of_nat_0 double_of_nat_Suc_0)
  have w2: "wf_array ?si ?a1" by (simp add: wf_array_def)
  show "\<exists>s'. py_fill_array ?si ?a1 = Inr s' \<and> next_addr s' = 2 \<and> heap s' 0 = Integers [5, - 3] \<and>
      heap s' 1 = Floats [Double False 0 0, Double False 1023 0]"
    using wrapper_in_place_or_copy [OF w2] by (auto simp: u double_of_nat_0 double_of_nat_Suc_0)
  have w3: "wf_array ?sf ?a2" by (simp add: wf_array_def)
  show "\<exists>s'. py_fill_array_2d ?sf ?a2 = Inr s' \<and> next_addr s' = 1 \<and>
      heap s' 0 = Floats [Double False 0 0, Double False 1023 0]"
    using wrapper_in_place_or_copy [OF w3] by (auto simp: u double_of_nat_0 double_of_nat_Suc_0)
  have w4: "wf_array ?sf ?a3" by (simp add: wf_array_def)
  show "\<exists>s'. py_fill_array_2d ?sf ?a3 = Inr s' \<and> next_addr s' = 2 \<and>
      heap s' 0 = Floats [Double True 7 9, Double False 2047 1] \<and>
      heap s' 1 = Floats [Double False 0 0, Double False 1023 0]"
    using wrapper_in_place_or_copy [OF w4] by (auto simp: u double_of_nat_0 double_of_nat_Suc_0)
qed

theorem wrapper_in_place_or_copy_counterexample:
  "is_float64 (heap \<lparr>heap = (\<lambda>p. Floats [])(0 := Floats [Double True 7 9, Double False 2047 1]),
                     next_addr = 1\<rparr> 0) \<and>
   py_fill_array
     \<lparr>heap = (\<lambda>p. Floats [])(0 := Floats [Double True 7 9, Double False 2047 1]), next_addr = 1\<rparr>
     \<lparr>data = 0, shape = [1, 2], c_contiguous = True\<rparr> = Inl ArgumentError \<and>
   py_fill_array_2d
     \<lparr>heap = (\<lambda>p. Floats [])(0 := Objects [Convertible (Double False 1023 0), Inconvertible]),
      next_addr = 1\<rparr>
     \<lparr>data = 0, shape = [1, 2], c_contiguous = True\<rparr> = Inl ConversionError"
  by (simp add: py_fill_array_def py_fill_array_2d_def ascontiguousarray_def lib_fill_array_def
      ndpointer_def)




text \<open>
  C6. Running a fill routine a second time on the memory the first run returned leaves the
  slots as the first run left them, for the 1-D and for the 2-D routine, on every buffer that
  has room for the slots the routine is asked to fill.
\<close>

theorem fill_idempotent:
  "(unat n \<le> length (cells m) \<longrightarrow>
      (\<exists>m1 m2. fill_array m n = Some m1 \<and> fill_array m1 n = Some m2 \<and> cells m2 = cells m1)) \<and>
   (valid_memory m \<and> unat rows * unat cols \<le> length (cells m) \<longrightarrow>
      (\<exists>m1 m2. fill_array_2d m rows cols = Some m1 \<and> fill_array_2d m1 rows cols = Some m2 \<and>
         cells m2 = cells m1))"
proof (intro conjI impI)
  assume le: "unat n \<le> length (cells m)"
  let ?m1 = "filled_range m 0 (unat n)"
  have 1: "fill_array m n = Some ?m1" using le by (rule fill_array_filled)
  have len: "length (cells ?m1) = length (cells m)" using le by (simp add: length_filled_range)
  have 2: "fill_array ?m1 n = Some (filled_range ?m1 0 (unat n))"
    using le len by (simp add: fill_array_filled)
  have "cells (filled_range ?m1 0 (unat n)) = cells ?m1"
    using le by (simp add: filled_range_def)
  with 1 2 show "\<exists>m1 m2. fill_array m n = Some m1 \<and> fill_array m1 n = Some m2 \<and> cells m2 = cells m1"
    by blast
next
  assume "valid_memory m \<and> unat rows * unat cols \<le> length (cells m)"
  then have v: "valid_memory m" and le: "unat rows * unat cols \<le> length (cells m)" by simp_all
  let ?N = "unat rows * unat cols"
  let ?m1 = "filled_range m 0 ?N"
  have 1: "fill_array_2d m rows cols = Some ?m1" using le v by (rule fill_array_2d_filled)
  have len: "length (cells ?m1) = length (cells m)" using le by (simp add: length_filled_range)
  have v1: "valid_memory ?m1" using v len by (simp add: valid_memory_def)
  have 2: "fill_array_2d ?m1 rows cols = Some (filled_range ?m1 0 ?N)"
    using le len v1 by (simp add: fill_array_2d_filled)
  have "cells (filled_range ?m1 0 ?N) = cells ?m1"
    using le by (simp add: filled_range_def)
  with 1 2 show "\<exists>m1 m2. fill_array_2d m rows cols = Some m1 \<and>
      fill_array_2d m1 rows cols = Some m2 \<and> cells m2 = cells m1"
    by blast
qed

theorem fill_idempotent_witness:
  "(\<exists>m1 m2. fill_array \<lparr>cells = [Double True 7 9, Double False 2047 1], writes = []\<rparr> 2 = Some m1 \<and>
       fill_array m1 2 = Some m2 \<and> cells m2 = cells m1) \<and>
   (\<exists>m1 m2. fill_array_2d \<lparr>cells = [Double True 7 9, Double False 2047 1], writes = []\<rparr> 2 1 = Some m1 \<and>
       fill_array_2d m1 2 1 = Some m2 \<and> cells m2 = cells m1)"
proof -
  let ?m = "\<lparr>cells = [Double True 7 9, Double False 2047 1], writes = []\<rparr>"
  have v: "valid_memory ?m" by (simp add: valid_memory_def)
  have a: "unat (2 :: size_t) \<le> length (cells ?m)" by simp
  have b: "unat (2 :: size_t) * unat (1 :: size_t) \<le> length (cells ?m)" by simp
  from fill_idempotent [of 2 ?m 2 1] a b v show ?thesis by blast
qed

text \<open>
  C7. With a size of zero (1-D), with zero rows or with zero columns (2-D), the routines
  return the memory they were given: no slot is stored to, nothing is added to the record
  of writes, and the result is not an error. This holds for every memory, the empty buffer
  included, where any store would be out of bounds.
\<close>

theorem fill_zero_size_noop:
  "fill_array m 0 = Some m \<and> fill_array_2d m 0 cols = Some m \<and> fill_array_2d m rows 0 = Some m"
proof (intro conjI)
  show "fill_array m 0 = Some m"
    unfolding fill_array_def by (subst fill_array_loop.simps) simp
  show "fill_array_2d m 0 cols = Some m"
    unfolding fill_array_2d_def by (subst fill_array_2d_outer.simps) simp
  show "fill_array_2d m rows 0 = Some m"
    unfolding fill_array_2d_def by (rule fill_array_2d_outer_no_cols)
qed

theorem fill_zero_size_noop_witness:
  "fill_array \<lparr>cells = [], writes = []\<rparr> 0 = Some \<lparr>cells = [], writes = []\<rparr> \<and>
   fill_array_2d \<lparr>cells = [], writes = []\<rparr> 0 5 = Some \<lparr>cells = [], writes = []\<rparr> \<and>
   fill_array_2d \<lparr>cells = [], writes = []\<rparr> 3 0 = Some \<lparr>cells = [], writes = []\<rparr>"
  using fill_zero_size_noop [of "\<lparr>cells = [], writes = []\<rparr>" 5 3] .



text \<open>
  C9. When the size argument is the element count of the buffer (1-D), or \<open>rows * cols\<close> is
  (2-D), the routines return without undefined behaviour, and every offset they store to
  lies below the size, respectively below \<open>rows * cols\<close>. The routines store once per
  element.
\<close>

theorem fill_writes_in_bounds:
  "(length (cells m) = unat n \<longrightarrow>
      (\<exists>m' ws. fill_array m n = Some m' \<and> writes m' = writes m @ ws \<and>
         length ws = unat n \<and> (\<forall>k \<in> set ws. k < unat n))) \<and>
   (valid_memory m \<and> length (cells m) = unat rows * unat cols \<longrightarrow>
      (\<exists>m' ws. fill_array_2d m rows cols = Some m' \<and> writes m' = writes m @ ws \<and>
         length ws = unat rows * unat cols \<and> (\<forall>k \<in> set ws. k < unat rows * unat cols)))"
proof (intro conjI impI)
  assume len: "length (cells m) = unat n"
  then have "fill_array m n = Some (filled_range m 0 (unat n))" by (simp add: fill_array_filled)
  moreover have "writes (filled_range m 0 (unat n)) = writes m @ [0..<unat n]"
    by (rule writes_filled_range)
  moreover have "length [0..<unat n] = unat n" "\<forall>k \<in> set [0..<unat n]. k < unat n"
    by simp_all
  ultimately show "\<exists>m' ws. fill_array m n = Some m' \<and> writes m' = writes m @ ws \<and>
      length ws = unat n \<and> (\<forall>k \<in> set ws. k < unat n)"
    by blast
next
  let ?N = "unat rows * unat cols"
  assume "valid_memory m \<and> length (cells m) = ?N"
  then have v: "valid_memory m" and len: "length (cells m) = ?N" by simp_all
  have "fill_array_2d m rows cols = Some (filled_range m 0 ?N)"
    using v len by (simp add: fill_array_2d_filled)
  moreover have "writes (filled_range m 0 ?N) = writes m @ [0..<?N]"
    by (rule writes_filled_range)
  moreover have "length [0..<?N] = ?N" "\<forall>k \<in> set [0..<?N]. k < ?N" by simp_all
  ultimately show "\<exists>m' ws. fill_array_2d m rows cols = Some m' \<and> writes m' = writes m @ ws \<and>
      length ws = ?N \<and> (\<forall>k \<in> set ws. k < ?N)"
    by blast
qed

theorem fill_writes_in_bounds_witness:
  "(\<exists>m' ws. fill_array \<lparr>cells = [Double True 7 9, Double False 2047 1], writes = []\<rparr> 2 = Some m' \<and>
       writes m' = ws \<and> length ws = 2 \<and> list_all (\<lambda>k. k < 2) ws) \<and>
   (\<exists>m' ws. fill_array_2d \<lparr>cells = [Double True 7 9, Double False 2047 1], writes = []\<rparr> 2 1 = Some m' \<and>
       writes m' = ws \<and> length ws = 2 \<and> list_all (\<lambda>k. k < 2) ws)"
proof -
  let ?m = "\<lparr>cells = [Double True 7 9, Double False 2047 1], writes = []\<rparr>"
  have v: "valid_memory ?m" by (simp add: valid_memory_def)
  have a: "length (cells ?m) = unat (2 :: size_t)" by simp
  have b: "length (cells ?m) = unat (2 :: size_t) * unat (1 :: size_t)" by simp
  from fill_writes_in_bounds [of ?m 2 2 1] a b v
  have "(\<exists>m' ws. fill_array ?m 2 = Some m' \<and> writes m' = writes ?m @ ws \<and>
           length ws = unat (2 :: size_t) \<and> (\<forall>k \<in> set ws. k < unat (2 :: size_t))) \<and>
        (\<exists>m' ws. fill_array_2d ?m 2 1 = Some m' \<and> writes m' = writes ?m @ ws \<and>
           length ws = unat (2 :: size_t) * unat (1 :: size_t) \<and>
           (\<forall>k \<in> set ws. k < unat (2 :: size_t) * unat (1 :: size_t)))"
    by blast
  then show ?thesis by (simp add: list_all_iff)
qed

text \<open>
  C10. Two buffers of the same length (1-D), or of the same \<open>rows\<close> and \<open>cols\<close> (2-D),
  hold the same slots after the fill, whatever they held before and whatever was recorded
  as written before.
\<close>

theorem fill_independent_of_contents:
  "(length (cells m1) = unat n \<and> length (cells m2) = unat n \<longrightarrow>
      (\<exists>m1' m2'. fill_array m1 n = Some m1' \<and> fill_array m2 n = Some m2' \<and>
         cells m1' = cells m2')) \<and>
   (valid_memory m1 \<and> valid_memory m2 \<and>
    length (cells m1) = unat rows * unat cols \<and> length (cells m2) = unat rows * unat cols \<longrightarrow>
      (\<exists>m1' m2'. fill_array_2d m1 rows cols = Some m1' \<and> fill_array_2d m2 rows cols = Some m2' \<and>
         cells m1' = cells m2'))"
proof (intro conjI impI)
  assume "length (cells m1) = unat n \<and> length (cells m2) = unat n"
  then have l1: "length (cells m1) = unat n" and l2: "length (cells m2) = unat n" by simp_all
  have "fill_array m1 n = Some (filled_range m1 0 (unat n))" using l1 by (simp add: fill_array_filled)
  moreover have "fill_array m2 n = Some (filled_range m2 0 (unat n))"
    using l2 by (simp add: fill_array_filled)
  moreover have "cells (filled_range m1 0 (unat n)) = cells (filled_range m2 0 (unat n))"
    using l1 l2 by (simp add: cells_filled_range_all)
  ultimately show "\<exists>m1' m2'. fill_array m1 n = Some m1' \<and> fill_array m2 n = Some m2' \<and>
      cells m1' = cells m2'" by blast
next
  let ?N = "unat rows * unat cols"
  assume "valid_memory m1 \<and> valid_memory m2 \<and> length (cells m1) = ?N \<and> length (cells m2) = ?N"
  then have v1: "valid_memory m1" and v2: "valid_memory m2"
    and l1: "length (cells m1) = ?N" and l2: "length (cells m2) = ?N" by simp_all
  have "fill_array_2d m1 rows cols = Some (filled_range m1 0 ?N)"
    using v1 l1 by (simp add: fill_array_2d_filled)
  moreover have "fill_array_2d m2 rows cols = Some (filled_range m2 0 ?N)"
    using v2 l2 by (simp add: fill_array_2d_filled)
  moreover have "cells (filled_range m1 0 ?N) = cells (filled_range m2 0 ?N)"
    using l1 l2 by (simp add: cells_filled_range_all)
  ultimately show "\<exists>m1' m2'. fill_array_2d m1 rows cols = Some m1' \<and>
      fill_array_2d m2 rows cols = Some m2' \<and> cells m1' = cells m2'" by blast
qed

theorem fill_independent_of_contents_witness:
  "(\<exists>m1' m2'. fill_array \<lparr>cells = [Double True 7 9, Double False 2047 1], writes = []\<rparr> 2 = Some m1' \<and>
       fill_array \<lparr>cells = [Double False 0 0, Double False 1023 0], writes = [5]\<rparr> 2 = Some m2' \<and>
       cells m1' = cells m2') \<and>
   (\<exists>m1' m2'. fill_array_2d \<lparr>cells = [Double True 7 9, Double False 2047 1], writes = []\<rparr> 1 2 = Some m1' \<and>
       fill_array_2d \<lparr>cells = [Double False 0 0, Double False 1023 0], writes = [5]\<rparr> 1 2 = Some m2' \<and>
       cells m1' = cells m2')"
proof -
  let ?a = "\<lparr>cells = [Double True 7 9, Double False 2047 1], writes = []\<rparr>"
  let ?b = "\<lparr>cells = [Double False 0 0, Double False 1023 0], writes = [5]\<rparr>"
  have v: "valid_memory ?a" "valid_memory ?b" by (simp_all add: valid_memory_def)
  have l: "length (cells ?a) = unat (2 :: size_t)" "length (cells ?b) = unat (2 :: size_t)"
    "length (cells ?a) = unat (1 :: size_t) * unat (2 :: size_t)"
    "length (cells ?b) = unat (1 :: size_t) * unat (2 :: size_t)" by simp_all
  from fill_independent_of_contents [of ?a 2 ?b 1 2] v l show ?thesis by blast
qed

end
